theory Spec2Isabelle
  imports Complex_Main "HOL-Library.Code_Target_Nat"
begin

section \<open>Values\<close>

text \<open>
  The helpers of the notebook's \<^verbatim>\<open>utils.py\<close> cell work on numpy arrays and pandas
  objects whose cells are double-precision numbers. A cell is modelled by \<open>fval\<close>:
  the three special values of IEEE 754 (\<open>NaN\<close> and the two infinities) are kept, with
  the rules IEEE 754 gives them, and a finite cell carries a real number. The
  operations of this section are exact: on finite cells they give the real number that
  IEEE 754 takes as the result before it is rounded. The next section rounds it. The
  sign of zero is not represented.
\<close>

datatype fval = Fin real | PInf | NInf | NaN

datatype py_error =
  ValueError | IndexError | TypeError | KeyError | ZeroDivisionError | OutOfBounds

fun isnan :: "fval \<Rightarrow> bool" where
  "isnan NaN = True"
| "isnan _ = False"

fun isfinite :: "fval \<Rightarrow> bool" where
  "isfinite (Fin _) = True"
| "isfinite _ = False"

fun fneg :: "fval \<Rightarrow> fval" where
  "fneg (Fin a) = Fin (- a)"
| "fneg PInf = NInf"
| "fneg NInf = PInf"
| "fneg NaN = NaN"

fun fadd :: "fval \<Rightarrow> fval \<Rightarrow> fval" where
  "fadd (Fin a) (Fin b) = Fin (a + b)"
| "fadd NaN _ = NaN"
| "fadd _ NaN = NaN"
| "fadd PInf NInf = NaN"
| "fadd NInf PInf = NaN"
| "fadd PInf _ = PInf"
| "fadd _ PInf = PInf"
| "fadd NInf _ = NInf"
| "fadd _ NInf = NInf"

definition fsub :: "fval \<Rightarrow> fval \<Rightarrow> fval" where
  "fsub a b = fadd a (fneg b)"

fun fmul :: "fval \<Rightarrow> fval \<Rightarrow> fval" where
  "fmul (Fin a) (Fin b) = Fin (a * b)"
| "fmul NaN _ = NaN"
| "fmul _ NaN = NaN"
| "fmul PInf (Fin b) = (if b = 0 then NaN else if 0 < b then PInf else NInf)"
| "fmul NInf (Fin b) = (if b = 0 then NaN else if 0 < b then NInf else PInf)"
| "fmul (Fin a) PInf = (if a = 0 then NaN else if 0 < a then PInf else NInf)"
| "fmul (Fin a) NInf = (if a = 0 then NaN else if 0 < a then NInf else PInf)"
| "fmul PInf PInf = PInf"
| "fmul NInf NInf = PInf"
| "fmul PInf NInf = NInf"
| "fmul NInf PInf = NInf"

text \<open>
  numpy's true division does not raise on a zero divisor: it warns and yields an
  infinity, or \<open>NaN\<close> for \<open>0/0\<close>. The zero of the model is unsigned, so a quotient by
  zero takes the sign of the dividend; the metrics below only use its absolute value.
\<close>

fun fdiv :: "fval \<Rightarrow> fval \<Rightarrow> fval" where
  "fdiv (Fin a) (Fin b) =
     (if b = 0 then (if a = 0 then NaN else if 0 < a then PInf else NInf)
      else Fin (a / b))"
| "fdiv NaN _ = NaN"
| "fdiv _ NaN = NaN"
| "fdiv (Fin a) _ = Fin 0"
| "fdiv PInf (Fin b) = (if 0 \<le> b then PInf else NInf)"
| "fdiv NInf (Fin b) = (if 0 \<le> b then NInf else PInf)"
| "fdiv _ _ = NaN"

fun fabs :: "fval \<Rightarrow> fval" where
  "fabs (Fin a) = Fin \<bar>a\<bar>"
| "fabs PInf = PInf"
| "fabs NInf = PInf"
| "fabs NaN = NaN"

fun fsqrt :: "fval \<Rightarrow> fval" where
  "fsqrt (Fin a) = (if a < 0 then NaN else Fin (sqrt a))"
| "fsqrt PInf = PInf"
| "fsqrt NInf = NaN"
| "fsqrt NaN = NaN"

text \<open>The comparison \<open>a >= b\<close> of two doubles: false as soon as one side is \<open>NaN\<close>.\<close>

fun fge :: "fval \<Rightarrow> fval \<Rightarrow> bool" where
  "fge (Fin a) (Fin b) = (b \<le> a)"
| "fge NaN _ = False"
| "fge _ NaN = False"
| "fge PInf _ = True"
| "fge _ NInf = True"
| "fge _ _ = False"

section \<open>Double precision\<close>

text \<open>
  A double has a significand of 53 bits and an exponent from \<open>-1022\<close> to \<open>1023\<close>. In the
  binade of a real number \<open>x\<close>, from \<open>2^e\<close> up to \<open>2^(e+1)\<close>, the doubles are the
  multiples of \<open>2^(e-52)\<close>; below \<open>2^-1022\<close> they are the multiples of \<open>2^-1074\<close>.
  \<open>ulp_exp x\<close> is the exponent of that spacing. The result of an operation is the real
  result rounded to the nearest double, to the one with an even significand when two
  are as near; a result that rounds to \<open>2^1024\<close> or beyond overflows to an infinity.
  \<open>round_even\<close> rounds a real number to the nearest integer, to the even one on a tie.
\<close>

definition round_even :: "real \<Rightarrow> int" where
  "round_even q =
     (let n = \<lfloor>q\<rfloor>; d = q - of_int n in
      if d < 1 / 2 then n else if 1 / 2 < d then n + 1 else if even n then n else n + 1)"

definition ulp_exp :: "real \<Rightarrow> int" where
  "ulp_exp x = max \<lfloor>log 2 \<bar>x\<bar>\<rfloor> (- 1022) - 52"

definition round64 :: "real \<Rightarrow> fval" where
  "round64 x =
     (if x = 0 then Fin 0
      else
        (let u = 2 powr of_int (ulp_exp x);
             r = of_int (round_even (x / u)) * u
         in if 2 ^ 1024 \<le> \<bar>r\<bar> then (if 0 < x then PInf else NInf) else Fin r))"

fun rnd :: "fval \<Rightarrow> fval" where
  "rnd (Fin x) = round64 x"
| "rnd v = v"

text \<open>
  The operations of numpy on doubles: the exact result, rounded. Taking the absolute
  value and comparing are exact.
\<close>

definition fadd64 :: "fval \<Rightarrow> fval \<Rightarrow> fval" where
  "fadd64 a b = rnd (fadd a b)"

definition fsub64 :: "fval \<Rightarrow> fval \<Rightarrow> fval" where
  "fsub64 a b = rnd (fsub a b)"

definition fmul64 :: "fval \<Rightarrow> fval \<Rightarrow> fval" where
  "fmul64 a b = rnd (fmul a b)"

definition fdiv64 :: "fval \<Rightarrow> fval \<Rightarrow> fval" where
  "fdiv64 a b = rnd (fdiv a b)"

definition fsqrt64 :: "fval \<Rightarrow> fval" where
  "fsqrt64 a = rnd (fsqrt a)"

text \<open>
  Two doubles used as examples: \<open>2^-600\<close>, whose square is below every positive double,
  and the double nearest to one tenth, which is what Python reads \<^verbatim>\<open>0.1\<close> as.
\<close>

definition tiny :: real where
  "tiny = 1 / 2 ^ 600"

definition tenth :: real where
  "tenth = 3602879701896397 / 2 ^ 55"

section \<open>Sequences\<close>

text \<open>
  A sequence is the list of its cells. The metrics are written for anything that
  subtracts and divides cell by cell: they are called on numpy arrays and, from
  \<^verbatim>\<open>tsaccuracy\<close>, on pandas Series. The container decides two things. A binary operator
  on two arrays works cell by cell; numpy stretches an array of one cell to the length
  of the other and raises a \<^verbatim>\<open>ValueError\<close> for any other pair of different lengths. On two
  Series it works label by label, and a label that one side lacks gives \<open>NaN\<close>. Two Series
  are taken here over the same labels, or over the default ones (the positions), so
  that the shorter one lacks the last labels of the longer.
\<close>

datatype container = NdArray | PdSeries

definition elementwise ::
  "('a \<Rightarrow> 'b \<Rightarrow> 'c) \<Rightarrow> 'a list \<Rightarrow> 'b list \<Rightarrow> py_error + 'c list" where
  "elementwise f xs ys =
     (if length xs = length ys then Inr (map2 f xs ys)
      else if length xs = 1 then Inr (map (f (hd xs)) ys)
      else if length ys = 1 then Inr (map (\<lambda>x. f x (hd ys)) xs)
      else Inl ValueError)"

definition pad :: "nat \<Rightarrow> fval list \<Rightarrow> fval list" where
  "pad n xs = xs @ replicate (n - length xs) NaN"

fun arith ::
  "container \<Rightarrow> (fval \<Rightarrow> fval \<Rightarrow> fval) \<Rightarrow> fval list \<Rightarrow> fval list \<Rightarrow> py_error + fval list" where
  "arith NdArray f xs ys = elementwise f xs ys"
| "arith PdSeries f xs ys =
     (let n = max (length xs) (length ys) in Inr (map2 f (pad n xs) (pad n ys)))"




text \<open>
  With rounding, a sum depends on the order in which the cells are added. numpy adds
  the cells of an array in an order that depends on their number (one after the other
  for a few cells, in blocks and pairwise for many), and on how it was built. A \<open>plan\<close>
  is one way of adding: a cell, taken by its position, the zero a sum may start from,
  or the rounded sum of what two plans give. It \<open>covers\<close> a sequence of \<open>n\<close> cells when it
  takes every position below \<open>n\<close> once. The order numpy follows is a parameter of the
  rounded sum, \<open>ord\<close>, which gives the plan for every number of cells; \<open>in_order\<close> adds the
  cells one after the other, from zero.
\<close>

datatype plan = Zero | Cell nat | Add plan plan

fun run :: "plan \<Rightarrow> fval list \<Rightarrow> fval" where
  "run Zero xs = Fin 0"
| "run (Cell i) xs = xs ! i"
| "run (Add p q) xs = fadd64 (run p xs) (run q xs)"

fun cells :: "plan \<Rightarrow> nat list" where
  "cells Zero = []"
| "cells (Cell i) = [i]"
| "cells (Add p q) = cells p @ cells q"

definition covers :: "plan \<Rightarrow> nat \<Rightarrow> bool" where
  "covers p n = (sort (cells p) = [0..<n])"

definition in_order :: "nat \<Rightarrow> plan" where
  "in_order n = foldl Add Zero (map Cell [0..<n])"

text \<open>
  \<^verbatim>\<open>np.mean\<close> with rounding. On an array it divides the sum of the cells by their number.
  \<^verbatim>\<open>Series.mean\<close> puts zero in the place of every \<open>NaN\<close> cell, adds all the cells and divides
  by the number of cells that were not \<open>NaN\<close>; it gives \<open>NaN\<close> when there is none.
\<close>

definition np_sum64 :: "(nat \<Rightarrow> plan) \<Rightarrow> fval list \<Rightarrow> fval" where
  "np_sum64 ord xs = run (ord (length xs)) xs"

definition np_mean64 :: "(nat \<Rightarrow> plan) \<Rightarrow> fval list \<Rightarrow> fval" where
  "np_mean64 ord xs = fdiv64 (np_sum64 ord xs) (Fin (real (length xs)))"

fun mean64 :: "(nat \<Rightarrow> plan) \<Rightarrow> container \<Rightarrow> fval list \<Rightarrow> fval" where
  "mean64 ord NdArray xs = np_mean64 ord xs"
| "mean64 ord PdSeries xs =
     (let n = length (filter (\<lambda>v. \<not> isnan v) xs) in
      if n = 0 then NaN
      else fdiv64 (np_sum64 ord (map (\<lambda>v. if isnan v then Fin 0 else v) xs)) (Fin (real n)))"

section \<open>Accuracy metrics\<close>

text \<open>
  \<^verbatim>\<open>
  def RMSE(Y, y): return np.sqrt(np.mean((Y-y)**2))
  def MAE(Y, y):  return np.mean(np.abs(Y-y))
  def MAPE(Y, y): return 100 * np.mean(np.abs((Y-y)/Y))
  def MASE(Y, y): return np.nan # TODO
  \<close>
  \<open>RMSE64\<close>, \<open>MAE64\<close> and \<open>MAPE64\<close> are the three metrics as numpy computes them, every
  operation rounded; the square is the rounded product of a cell with itself. Their
  first argument is the order in which sums are taken, the second the container of
  \<open>Y\<close> and \<open>y\<close>.
\<close>

definition RMSE64 ::
  "(nat \<Rightarrow> plan) \<Rightarrow> container \<Rightarrow> fval list \<Rightarrow> fval list \<Rightarrow> py_error + fval" where
  "RMSE64 ord k Y y =
     (case arith k fsub64 Y y of
        Inl e \<Rightarrow> Inl e
      | Inr d \<Rightarrow> Inr (fsqrt64 (mean64 ord k (map (\<lambda>v. fmul64 v v) d))))"

definition MAE64 ::
  "(nat \<Rightarrow> plan) \<Rightarrow> container \<Rightarrow> fval list \<Rightarrow> fval list \<Rightarrow> py_error + fval" where
  "MAE64 ord k Y y =
     (case arith k fsub64 Y y of
        Inl e \<Rightarrow> Inl e
      | Inr d \<Rightarrow> Inr (mean64 ord k (map fabs d)))"

definition MAPE64 ::
  "(nat \<Rightarrow> plan) \<Rightarrow> container \<Rightarrow> fval list \<Rightarrow> fval list \<Rightarrow> py_error + fval" where
  "MAPE64 ord k Y y =
     (case arith k fsub64 Y y of
        Inl e \<Rightarrow> Inl e
      | Inr d \<Rightarrow>
          (case arith k fdiv64 d Y of
             Inl e \<Rightarrow> Inl e
           | Inr q \<Rightarrow> Inr (fmul64 (Fin 100) (mean64 ord k (map fabs q)))))"


definition MASE :: "'a \<Rightarrow> 'b \<Rightarrow> py_error + fval" where
  "MASE Y y = Inr NaN"

text \<open>Comparing what two calls return; a call that raised compares false.\<close>

fun returns_ge :: "py_error + fval \<Rightarrow> py_error + fval \<Rightarrow> bool" where
  "returns_ge (Inr a) (Inr b) = fge a b"
| "returns_ge _ _ = False"

text \<open>\<^verbatim>\<open>c * Y\<close> for a Python float \<open>c\<close> and a sequence \<open>Y\<close>: every product is rounded.\<close>

definition scale64 :: "real \<Rightarrow> fval list \<Rightarrow> fval list" where
  "scale64 c Y = map (fmul64 (Fin c)) Y"

text \<open>
  Multiplying by a power of two only moves the exponent, as long as the exponent stays
  in its range. A real number is \<open>normal\<close> here when it is zero or its magnitude is at
  least \<open>2^-1022\<close>, the least double with a full significand, and less than \<open>2^1023\<close>.
  A finite cell is \<open>steady\<close> under \<open>c\<close> when it is a double and both it and its multiple
  by \<open>c\<close> are normal; two cells \<open>a\<close> and \<open>b\<close> have a steady difference when \<open>a - b\<close> and
  its multiple by \<open>c\<close> are normal. \<open>scales c a b\<close> asks all three. \<open>times c v\<close> is the cell
  \<open>v\<close> multiplied by a positive \<open>c\<close> exactly.
\<close>

definition normal :: "real \<Rightarrow> bool" where
  "normal x = (x = 0 \<or> 1 / 2 ^ 1022 \<le> \<bar>x\<bar> \<and> \<bar>x\<bar> < 2 ^ 1023)"

fun steady :: "real \<Rightarrow> fval \<Rightarrow> bool" where
  "steady c (Fin x) = (round64 x = Fin x \<and> normal x \<and> normal (c * x))"
| "steady c v = True"

fun steady_difference :: "real \<Rightarrow> fval \<Rightarrow> fval \<Rightarrow> bool" where
  "steady_difference c (Fin a) (Fin b) = (normal (a - b) \<and> normal (c * (a - b)))"
| "steady_difference c a b = True"

definition scales :: "real \<Rightarrow> fval \<Rightarrow> fval \<Rightarrow> bool" where
  "scales c a b = (steady c a \<and> steady c b \<and> steady_difference c a b)"

fun times :: "real \<Rightarrow> fval \<Rightarrow> fval" where
  "times c (Fin x) = Fin (c * x)"
| "times c v = v"

section \<open>Residuals of the diagnostic plot\<close>

text \<open>
  \<^verbatim>\<open>plot_tsresiduals(Y, y, acf_lags)\<close> draws five panels and returns the figure. What it
  draws is computed by three lines:
  \<^verbatim>\<open>
  mask = ~(np.isnan(Y) | np.isnan(y))
  Y, y = Y[mask], y[mask]
  dy = Y - y
  \<close>
  \<open>plot_tsresiduals_dy\<close> is the value of \<open>dy\<close> after them. Indexing an array with an
  array of booleans keeps the cells under a true entry; numpy raises an \<^verbatim>\<open>IndexError\<close>
  when the two lengths differ. On two Series over the same labels the three lines keep
  and subtract the same cells.
\<close>

definition boolean_index :: "'a list \<Rightarrow> bool list \<Rightarrow> py_error + 'a list" where
  "boolean_index xs msk =
     (if length msk = length xs then Inr (map fst (filter snd (zip xs msk)))
      else Inl IndexError)"

definition plot_tsresiduals_dy :: "fval list \<Rightarrow> fval list \<Rightarrow> py_error + fval list" where
  "plot_tsresiduals_dy Y y =
     (case elementwise (\<or>) (map isnan Y) (map isnan y) of
        Inl e \<Rightarrow> Inl e
      | Inr either \<Rightarrow>
          (let msk = map Not either in
           case boolean_index Y msk of
             Inl e \<Rightarrow> Inl e
           | Inr Y' \<Rightarrow>
               (case boolean_index y msk of
                  Inl e \<Rightarrow> Inl e
                | Inr y' \<Rightarrow> elementwise fsub Y' y')))"

section \<open>Tables\<close>

text \<open>
  A pandas table: the labels of its rows and its named columns, each column holding one
  cell per row (\<open>wf_frame\<close>). A time-indexed table has integer stamps for labels
  (pandas counts nanoseconds from the epoch) and may carry the frequency of its index,
  \<^verbatim>\<open>df.index.freq\<close>: the length of one step, in nanoseconds, negative when the index
  runs backwards. These are the frequencies of fixed length (days, hours, minutes and
  their multiples); calendar offsets such as month end, whose steps have no fixed
  length, are not represented.
\<close>

record 'i frame =
  index :: "'i list"
  columns :: "(string \<times> fval list) list"

record tsframe = "int frame" +
  freq :: "int option"

definition wf_frame :: "('i, 'm) frame_scheme \<Rightarrow> bool" where
  "wf_frame df = list_all (\<lambda>(c, vs). length vs = length (index df)) (columns df)"

definition colnames :: "('i, 'm) frame_scheme \<Rightarrow> string list" where
  "colnames df = map fst (columns df)"

text \<open>
  \<^verbatim>\<open>pd.DataFrame(d, index=idx)\<close> on a dictionary of arrays: every array needs one cell per
  label, else a \<^verbatim>\<open>ValueError\<close>. \<^verbatim>\<open>df.drop(columns=cols)\<close> raises a \<^verbatim>\<open>KeyError\<close> on a name
  the table does not have.
\<close>

definition DataFrame :: "(string \<times> fval list) list \<Rightarrow> 'i list \<Rightarrow> py_error + 'i frame" where
  "DataFrame d idx =
     (if list_all (\<lambda>(c, vs). length vs = length idx) d
      then Inr \<lparr>index = idx, columns = d\<rparr>
      else Inl ValueError)"

definition drop_columns :: "'i frame \<Rightarrow> string list \<Rightarrow> py_error + 'i frame" where
  "drop_columns df cols =
     (if list_all (\<lambda>c. c \<in> set (colnames df)) cols
      then Inr (df\<lparr>columns := filter (\<lambda>(c, vs). c \<notin> set cols) (columns df)\<rparr>)
      else Inl KeyError)"

text \<open>
  \<^verbatim>\<open>l.join(r)\<close> is a left join on the row labels and raises a \<^verbatim>\<open>ValueError\<close> when a column
  name is on both sides. Each row of \<open>l\<close> is paired with every row of \<open>r\<close> under the same
  label, in order, or with missing cells when there is none; so a label that occurs
  several times on both sides multiplies its rows.
\<close>

definition join_rows :: "'i list \<Rightarrow> 'i list \<Rightarrow> (nat \<times> nat option) list" where
  "join_rows li ri =
     concat (map (\<lambda>i. case filter (\<lambda>j. ri ! j = li ! i) [0..<length ri] of
                         [] \<Rightarrow> [(i, None)]
                       | js \<Rightarrow> map (\<lambda>j. (i, Some j)) js)
                 [0..<length li])"

definition take_rows :: "fval list \<Rightarrow> nat option list \<Rightarrow> fval list" where
  "take_rows vs js = map (\<lambda>j. case j of None \<Rightarrow> NaN | Some k \<Rightarrow> vs ! k) js"

definition join :: "'i frame \<Rightarrow> 'i frame \<Rightarrow> py_error + 'i frame" where
  "join l r =
     (if list_ex (\<lambda>c. c \<in> set (colnames r)) (colnames l) then Inl ValueError
      else
        (let rows = join_rows (index l) (index r) in
         Inr \<lparr>index = map (\<lambda>(i, j). index l ! i) rows,
              columns =
                map (\<lambda>(c, vs). (c, take_rows vs (map (\<lambda>(i, j). Some i) rows))) (columns l) @
                map (\<lambda>(c, vs). (c, take_rows vs (map snd rows))) (columns r)\<rparr>))"

text \<open>
  \<^verbatim>\<open>
  def compute(df, f):
      newdf = pd.DataFrame(f(df), index=df.index)
      dropcols = [col for col in newdf.columns if col in df.columns]
      if dropcols:
          df = df.drop(columns=dropcols)
      return df.join(newdf)
  \<close>
\<close>

definition compute ::
  "'i frame \<Rightarrow> ('i frame \<Rightarrow> (string \<times> fval list) list) \<Rightarrow> py_error + 'i frame" where
  "compute df f =
     (case DataFrame (f df) (index df) of
        Inl e \<Rightarrow> Inl e
      | Inr newdf \<Rightarrow>
          (let dropcols = filter (\<lambda>col. col \<in> set (colnames df)) (colnames newdf) in
           case (if dropcols \<noteq> [] then drop_columns df dropcols else Inr df) of
             Inl e \<Rightarrow> Inl e
           | Inr df' \<Rightarrow> join df' newdf))"

section \<open>Time\<close>

text \<open>
  A stamp is a 64-bit count of nanoseconds; the least value is kept for \<open>NaT\<close>, so the
  stamps and the durations pandas can hold lie between \<open>- max_stamp\<close> and \<open>max_stamp\<close>.
  A bound of a range is a stamp or \<open>NaT\<close>, which is what the minimum and the maximum of
  an empty index are. The argument \<open>dt\<close> is a Python \<^verbatim>\<open>int\<close> or something
  \<^verbatim>\<open>pd.to_timedelta\<close> turns into a duration, given here in nanoseconds; an explicit
  bound \<^verbatim>\<open>tmin\<close> or \<^verbatim>\<open>tmax\<close> is a pandas stamp, hence within the bounds.
\<close>

datatype tstamp = NaT | Ts int

datatype dt_arg = IntStep int | Timedelta int

definition max_stamp :: int where
  "max_stamp = 9223372036854775807"

definition in_bounds :: "int \<Rightarrow> bool" where
  "in_bounds t = (- max_stamp \<le> t \<and> t \<le> max_stamp)"

definition day :: int where
  "day = 86400000000000"

fun index_min :: "int list \<Rightarrow> tstamp" where
  "index_min [] = NaT"
| "index_min (t # ts) = Ts (fold min ts t)"

fun index_max :: "int list \<Rightarrow> tstamp" where
  "index_max [] = NaT"
| "index_max (t # ts) = Ts (fold max ts t)"

text \<open>
  A stamp plus or minus a duration: pandas raises (\<^verbatim>\<open>OutOfBoundsDatetime\<close>, or an
  overflow error already when the duration is built from \<^verbatim>\<open>dt * freq\<close>) as soon as the
  duration or the new stamp leaves the bounds; the model has the one error \<open>OutOfBounds\<close>
  for these. \<open>NaT\<close> plus or minus a duration is \<open>NaT\<close>.
\<close>

fun ts_add :: "tstamp \<Rightarrow> int \<Rightarrow> py_error + tstamp" where
  "ts_add NaT d = (if in_bounds d then Inr NaT else Inl OutOfBounds)"
| "ts_add (Ts t) d =
     (if in_bounds d \<and> in_bounds (t + d) then Inr (Ts (t + d)) else Inl OutOfBounds)"

fun ts_sub :: "tstamp \<Rightarrow> int \<Rightarrow> py_error + tstamp" where
  "ts_sub NaT d = (if in_bounds d then Inr NaT else Inl OutOfBounds)"
| "ts_sub (Ts t) d =
     (if in_bounds d \<and> in_bounds (t - d) then Inr (Ts (t - d)) else Inl OutOfBounds)"

text \<open>
  \<^verbatim>\<open>pd.date_range(start, end, freq=freq)\<close> lists stamps one step apart from \<open>start\<close> on;
  with \<^verbatim>\<open>freq=None\<close> the step is one day, and a \<open>NaT\<close> bound raises a \<^verbatim>\<open>ValueError\<close>. For a
  step \<open>f\<close> of fixed length pandas computes
  \<^verbatim>\<open>e = b + (end - b) // f * f + f // 2 + 1\<close> and takes \<^verbatim>\<open>np.arange(b, e, f)\<close>, whose
  length is the quotient of \<open>e - b\<close> by \<open>f\<close>, rounded up, or zero when that is negative:
  with a positive step these are the stamps up to \<open>end\<close>, and none when \<open>end\<close> is before
  \<open>start\<close>; with a negative step there is none when \<open>end\<close> is after \<open>start\<close>. The range
  carries its frequency.
\<close>

definition grid :: "int \<Rightarrow> int \<Rightarrow> nat \<Rightarrow> int list" where
  "grid s f n = map (\<lambda>i. s + int i * f) [0..<n]"

fun date_range :: "tstamp \<Rightarrow> tstamp \<Rightarrow> int option \<Rightarrow> py_error + (int list \<times> int)" where
  "date_range (Ts s) (Ts e) fr =
     (let f = (case fr of None \<Rightarrow> day | Some f \<Rightarrow> f) in
      if f = 0 then Inl ZeroDivisionError
      else
        (let stop = s + (e - s) div f * f + f div 2 + 1
         in Inr (grid s f (nat (- ((s - stop) div f))), f)))"
| "date_range _ _ fr = Inl ValueError"

text \<open>
  \<^verbatim>\<open>df.reindex(index)\<close> looks every new label up among the old ones: the row is copied
  when the label is found, and filled with \<open>NaN\<close> otherwise. pandas refuses to look labels
  up in an index with duplicates.
\<close>

definition reindex :: "tsframe \<Rightarrow> int list \<times> int \<Rightarrow> py_error + tsframe" where
  "reindex df new =
     (if \<not> distinct (index df) then Inl ValueError
      else Inr \<lparr>index = fst new,
                columns = map (\<lambda>(c, vs). (c, map (\<lambda>t. case map_of (zip (index df) vs) t of
                                                         None \<Rightarrow> NaN | Some v \<Rightarrow> v) (fst new)))
                              (columns df),
                freq = Some (snd new)\<rparr>)"

text \<open>
  \<^verbatim>\<open>
  def extend_timeseries(df, tmax=None, tmin=None, dt=None):
      freq = df.index.freq
      if tmax is tmin is dt is None:
          dt = 1
      if tmin is None:
          tmin = df.index.min()
      if tmax is None:
          tmax = df.index.max()
      if dt is not None:
          if isinstance(dt, int):
              if dt > 0:
                  tmax += dt * freq
              elif dt < 0:
                  tmin += dt * freq
          else:
              dt = pd.to_timedelta(dt)
              if dt > pd.to_timedelta('0d'):
                  tmax += dt
              else:
                  tmin -= dt
      index = pd.date_range(tmin, tmax, freq=freq)
      return df.reindex(index)
  \<close>
  \<open>step_bounds\<close> is the block under \<^verbatim>\<open>if dt is not None\<close>. Multiplying an integer with the
  frequency \<^verbatim>\<open>None\<close> raises a \<^verbatim>\<open>TypeError\<close>.
\<close>

fun step_bounds ::
  "int option \<Rightarrow> tstamp \<Rightarrow> tstamp \<Rightarrow> dt_arg option \<Rightarrow> py_error + (tstamp \<times> tstamp)" where
  "step_bounds fr tmin tmax None = Inr (tmin, tmax)"
| "step_bounds fr tmin tmax (Some (IntStep n)) =
     (if 0 < n then
        (case fr of
           None \<Rightarrow> Inl TypeError
         | Some f \<Rightarrow> (case ts_add tmax (n * f) of Inl e \<Rightarrow> Inl e | Inr t \<Rightarrow> Inr (tmin, t)))
      else if n < 0 then
        (case fr of
           None \<Rightarrow> Inl TypeError
         | Some f \<Rightarrow> (case ts_add tmin (n * f) of Inl e \<Rightarrow> Inl e | Inr t \<Rightarrow> Inr (t, tmax)))
      else Inr (tmin, tmax))"
| "step_bounds fr tmin tmax (Some (Timedelta d)) =
     (if 0 < d then (case ts_add tmax d of Inl e \<Rightarrow> Inl e | Inr t \<Rightarrow> Inr (tmin, t))
      else (case ts_sub tmin d of Inl e \<Rightarrow> Inl e | Inr t \<Rightarrow> Inr (t, tmax)))"

definition extend_timeseries ::
  "tsframe \<Rightarrow> int option \<Rightarrow> int option \<Rightarrow> dt_arg option \<Rightarrow> py_error + tsframe" where
  "extend_timeseries df tmax tmin dt =
     (let fr = freq df;
          dt = (if tmax = None \<and> tmin = None \<and> dt = None then Some (IntStep 1) else dt);
          tmin = (case tmin of None \<Rightarrow> index_min (index df) | Some t \<Rightarrow> Ts t);
          tmax = (case tmax of None \<Rightarrow> index_max (index df) | Some t \<Rightarrow> Ts t)
      in case step_bounds fr tmin tmax dt of
           Inl e \<Rightarrow> Inl e
         | Inr (tmin, tmax) \<Rightarrow>
             (case date_range tmin tmax fr of
                Inl e \<Rightarrow> Inl e
              | Inr new \<Rightarrow> reindex df new))"


text \<open>
  Examples: three daily rows from the epoch, with the frequency set; the same rows
  listed backwards, with the frequency of minus one day; no row at all, with the
  frequency of one day; and the last two midnights that a stamp can hold, 2262-04-10
  and 2262-04-11.
\<close>

definition daily :: tsframe where
  "daily = \<lparr>index = [0, 86400000000000, 172800000000000],
            columns = [(''y'', [Fin 1, Fin 2, Fin 3])], freq = Some day\<rparr>"




section \<open>Sums and means of finite cells\<close>




lemma elementwise_same_length:
  "length xs = length ys \<Longrightarrow> elementwise f xs ys = Inr (map2 f xs ys)"
  by (simp add: elementwise_def)

lemma arith_same_length:
  "length xs = length ys \<Longrightarrow> arith k f xs ys = Inr (map2 f xs ys)"
  by (cases k) (simp_all add: elementwise_def pad_def)


lemma map2_fsub_Fin:
  "map2 fsub (map Fin as) (map Fin bs) = map Fin (map2 (-) as bs)"
  by (induction as arbitrary: bs) (auto simp: fsub_def split: list.splits  simp: zip_Cons1)

section \<open>Rounding\<close>

lemma round_even_of_int [simp]: "round_even (of_int n) = n"
  by (simp add: round_even_def)

lemma round_even_lower:
  assumes "of_int N \<le> q"
  shows "N \<le> round_even q"
proof -
  from assms have "N \<le> \<lfloor>q\<rfloor>" by (simp add: le_floor_iff)
  then show ?thesis by (simp add: round_even_def Let_def)
qed

lemma round_even_upper:
  assumes "q \<le> of_int N"
  shows "round_even q \<le> N"
proof (cases "q = of_int N")
  case True
  then show ?thesis by simp
next
  case False
  with assms have "q < of_int N" by simp
  then have "\<lfloor>q\<rfloor> < N" by (simp add: floor_less_iff)
  then show ?thesis by (simp add: round_even_def Let_def)
qed

lemma round_even_half: 
  assumes "\<bar>q\<bar> \<le> 1 / 2"
  shows "round_even q = 0"
proof (cases "0 \<le> q")
  case True
  with assms have "\<lfloor>q\<rfloor> = 0" by (simp add: floor_eq_iff)
  with True assms show ?thesis by (simp add: round_even_def Let_def)
next
  case False
  with assms have "\<lfloor>q\<rfloor> = - 1" by (simp add: floor_eq_iff)
  with False assms show ?thesis by (simp add: round_even_def Let_def)
qed

lemma ulp_exp_bound:
  assumes "x \<noteq> 0"
  shows "\<bar>x\<bar> < 2 powr (of_int (ulp_exp x) + 53)"
proof -
  have "log 2 \<bar>x\<bar> < of_int \<lfloor>log 2 \<bar>x\<bar>\<rfloor> + 1" by linarith
  also have "\<dots> \<le> of_int (ulp_exp x) + 53" by (simp add: ulp_exp_def)
  finally have "log 2 \<bar>x\<bar> < of_int (ulp_exp x) + 53" .
  then show ?thesis using assms by (simp add: log_less_iff)
qed

lemma round64_not_NaN [simp]: "round64 x \<noteq> NaN" "NaN \<noteq> round64 x"
  by (simp_all add: round64_def Let_def)

lemma round64_nonneg:
  assumes "0 \<le> x"
  shows "fge (round64 x) (Fin 0)"
proof (cases "x = 0")
  case True
  then show ?thesis by (simp add: round64_def)
next
  case False
  with assms have pos: "0 < x" by simp
  let ?u = "2 powr of_int (ulp_exp x) :: real"
  have "0 \<le> x / ?u" using assms by simp
  then have "0 \<le> round_even (x / ?u)" using round_even_lower [of 0] by simp
  then have "0 \<le> of_int (round_even (x / ?u)) * ?u" by simp
  then show ?thesis using pos by (simp add: round64_def Let_def)
qed

lemma ulp_exp_normal:
  assumes "2 powr of_int e \<le> \<bar>x\<bar>" and "\<bar>x\<bar> < 2 powr (of_int e + 1)" and "- 1022 \<le> e"
  shows "ulp_exp x = e - 52"
proof -
  have "0 < (2::real) powr of_int e" by simp
  with assms(1) have pos: "0 < \<bar>x\<bar>" by linarith
  have "\<lfloor>log 2 \<bar>x\<bar>\<rfloor> = e"
    using assms(1,2) pos by (simp add: floor_log_eq_powr_iff)
  then show ?thesis using assms(3) by (simp add: ulp_exp_def)
qed

lemma ulp_exp_subnormal:
  assumes "x \<noteq> 0" and "\<bar>x\<bar> < 2 powr (- 1022)"
  shows "ulp_exp x = - 1074"
proof -
  from assms have "log 2 \<bar>x\<bar> < - 1022" by (simp add: log_less_iff)
  then have "\<lfloor>log 2 \<bar>x\<bar>\<rfloor> < - 1022" by (simp add: floor_less_iff)
  then show ?thesis by (simp add: ulp_exp_def)
qed

lemma round_even_zero [simp]: "round_even 0 = 0"
  using round_even_of_int [of 0] by simp

lemma rounded_bound:
  assumes "\<bar>x\<bar> < 2 powr (of_int u + 53)"
  shows "\<bar>of_int (round_even (x / 2 powr of_int u)) * 2 powr of_int u\<bar>
    \<le> (2::real) powr (of_int u + 53)"
proof -
  let ?u = "2 powr of_int u :: real"
  have u: "0 < ?u" by simp
  have "\<bar>x\<bar> / ?u < 2 powr 53" using assms by (simp add: powr_add field_simps)
  then have "\<bar>x / ?u\<bar> < 2 ^ 53" by simp
  then have "- (2 ^ 53) \<le> x / ?u" "x / ?u \<le> 2 ^ 53" by linarith+
  then have lo: "of_int (- (2 ^ 53)) \<le> x / ?u" and hi: "x / ?u \<le> of_int (2 ^ 53)" by simp_all
  have "- (2 ^ 53) \<le> round_even (x / ?u)" using lo by (rule round_even_lower)
  moreover have "round_even (x / ?u) \<le> 2 ^ 53" using hi by (rule round_even_upper)
  ultimately have "\<bar>round_even (x / ?u)\<bar> \<le> 2 ^ 53" by linarith
  then have "\<bar>real_of_int (round_even (x / ?u))\<bar> \<le> 2 ^ 53"
    by (metis of_int_abs of_int_le_iff of_int_numeral of_int_power)
  then have "\<bar>real_of_int (round_even (x / ?u))\<bar> * ?u \<le> 2 ^ 53 * ?u"
    using u by (simp add: mult_right_mono)
  then show ?thesis by (simp add: abs_mult powr_add mult.commute)
qed

lemma round64_at:
  assumes "x \<noteq> 0" and "ulp_exp x = u" and "u \<le> 970"
  shows "round64 x = Fin (of_int (round_even (x / 2 powr of_int u)) * 2 powr of_int u)"
proof -
  let ?r = "of_int (round_even (x / 2 powr of_int u)) * 2 powr of_int u :: real"
  have "\<bar>x\<bar> < 2 powr (of_int u + 53)" using ulp_exp_bound [OF assms(1)] assms(2) by simp
  then have "\<bar>?r\<bar> \<le> 2 powr (of_int u + 53)" by (rule rounded_bound)
  also have "\<dots> \<le> 2 powr 1023" by (rule powr_mono) (use assms(3) in simp_all)
  also have "\<dots> < 2 powr 1024" by (rule powr_less_mono) simp_all
  finally have "\<bar>?r\<bar> < 2 powr 1024" .
  then have "\<bar>?r\<bar> < 2 ^ 1024" by simp
  then show ?thesis using assms(1,2) by (simp add: round64_def Let_def)
qed

lemma round64_normal:
  assumes "2 powr of_int e \<le> \<bar>x\<bar>" and "\<bar>x\<bar> < 2 powr (of_int e + 1)"
    and "- 1022 \<le> e" and "e \<le> 1022"
  shows "round64 x =
    Fin (of_int (round_even (x / 2 powr of_int (e - 52))) * 2 powr of_int (e - 52))"
proof -
  have "0 < (2::real) powr of_int e" by simp
  with assms(1) have x: "x \<noteq> 0" by auto
  have u: "ulp_exp x = e - 52" using assms(1-3) by (rule ulp_exp_normal)
  have "e - 52 \<le> 970" using assms(4) by simp
  with x u show ?thesis by (rule round64_at)
qed

lemma round64_subnormal:
  assumes "\<bar>x\<bar> < 2 powr (- 1022)"
  shows "round64 x = Fin (of_int (round_even (x / 2 powr (- 1074))) * 2 powr (- 1074))"
proof (cases "x = 0")
  case True
  then show ?thesis by (simp add: round64_def)
next
  case False
  from round64_at [OF False ulp_exp_subnormal [OF False assms]] show ?thesis by simp
qed

lemma round64_underflow:
  assumes "\<bar>x\<bar> \<le> 2 powr (- 1075)"
  shows "round64 x = Fin 0"
proof -
  have "(2::real) powr (- 1075) < 2 powr (- 1022)" by (rule powr_less_mono) simp_all
  with assms have sub: "\<bar>x\<bar> < 2 powr (- 1022)" by linarith
  have "(2::real) powr (- 1075) = 2 powr (- 1074 + - 1)" by simp
  also have "\<dots> = 2 powr (- 1074) * 2 powr (- 1)" by (rule powr_add)
  finally have "(2::real) powr (- 1075) = 2 powr (- 1074) * (1 / 2)"
    by (simp add: powr_minus_divide)
  with assms have "\<bar>x\<bar> \<le> 2 powr (- 1074) * (1 / 2)" by simp
  moreover have "0 < (2::real) powr (- 1074)" by simp
  ultimately have "\<bar>x\<bar> / 2 powr (- 1074) \<le> 1 / 2" by (simp add: pos_divide_le_eq mult.commute)
  then have "\<bar>x / 2 powr (- 1074)\<bar> \<le> 1 / 2" by simp
  then have "round_even (x / 2 powr (- 1074)) = 0" by (rule round_even_half)
  then show ?thesis by (simp add: round64_subnormal [OF sub])
qed

lemma round64_representable:
  assumes "\<bar>m\<bar> < 2 ^ 53" and "- 1074 \<le> e" and "e \<le> 970"
  shows "round64 (of_int m * 2 powr of_int e) = Fin (of_int m * 2 powr of_int e)"
proof (cases "m = 0")
  case True
  then show ?thesis by (simp add: round64_def)
next
  case False
  define x :: real where "x = of_int m * 2 powr of_int e"
  define u where "u = ulp_exp x"
  have x: "x \<noteq> 0" using False by (simp add: x_def)
  have "\<bar>real_of_int m\<bar> < 2 ^ 53"
    using assms(1) by (metis of_int_abs of_int_less_iff of_int_numeral of_int_power)
  then have "\<bar>x\<bar> < 2 ^ 53 * 2 powr of_int e" by (simp add: abs_mult x_def)
  then have lt: "\<bar>x\<bar> < 2 powr (of_int e + 53)" by (simp add: powr_add mult.commute)
  then have "log 2 \<bar>x\<bar> < of_int e + 53" using x by (simp add: log_less_iff)
  then have "\<lfloor>log 2 \<bar>x\<bar>\<rfloor> < e + 53" by (simp add: floor_less_iff)
  then have ue: "u \<le> e" using assms(2) by (simp add: ulp_exp_def u_def)
  then obtain k where k: "e = u + int k" by (metis zle_iff_zadd)
  have "(2::real) powr of_int e = 2 powr (of_int u + of_int (int k))" by (simp add: k)
  also have "\<dots> = 2 powr of_int u * 2 powr of_int (int k)" by (rule powr_add)
  also have "\<dots> = 2 powr of_int u * 2 ^ k" by (simp add: powr_realpow)
  finally have pw: "(2::real) powr of_int e = 2 powr of_int u * 2 ^ k" .
  have "x / 2 powr of_int u = of_int (m * 2 ^ k)" by (simp add: x_def pw)
  then have "round_even (x / 2 powr of_int u) = m * 2 ^ k"
    by (simp only: round_even_of_int)
  then have r: "of_int (round_even (x / 2 powr of_int u)) * 2 powr of_int u = x"
    by (simp add: x_def pw)
  have "u \<le> 970" using ue assms(3) by simp
  with x have "round64 x = Fin (of_int (round_even (x / 2 powr of_int u)) * 2 powr of_int u)"
    unfolding u_def by (rule round64_at [OF _ refl])
  then show ?thesis by (simp only: r) (simp add: x_def)
qed

lemma pow2_neg: "(2::real) powr of_int (- int k) = 1 / 2 ^ k"
proof -
  have "(2::real) powr of_int (- int k) = 1 / 2 powr of_int (int k)"
    by (simp add: powr_minus_divide)
  then show ?thesis by (simp add: powr_realpow)
qed

lemma round64_dyadic:
  assumes "\<bar>m\<bar> < 2 ^ 53" and "k \<le> 1074"
  shows "round64 (of_int m / 2 ^ k) = Fin (of_int m / 2 ^ k)"
  using round64_representable [OF assms(1), of "- int k"] assms(2)
  by (simp only: pow2_neg) simp

lemma round64_integer:
  assumes "\<bar>m\<bar> < 2 ^ 53"
  shows "round64 (of_int m) = Fin (of_int m)"
  using round64_dyadic [OF assms, of 0] by simp

lemma round64_fraction:
  assumes "1 / 2 ^ k \<le> \<bar>x\<bar>" and "\<bar>x\<bar> < 2 / 2 ^ k" and "k \<le> 1022"
  shows "round64 x = Fin (of_int (round_even (x * 2 ^ (k + 52))) / 2 ^ (k + 52))"
proof -
  have a: "(2::real) powr of_int (- int k) = 1 / 2 ^ k" by (rule pow2_neg)
  have "(2::real) powr (of_int (- int k) + 1) = 2 powr of_int (- int k) * 2 powr 1"
    by (rule powr_add)
  then have b: "(2::real) powr (of_int (- int k) + 1) = 2 / 2 ^ k" by (simp only: a) simp
  have c: "(2::real) powr of_int (- int k - 52) = 1 / 2 ^ (k + 52)"
    using pow2_neg [of "k + 52"] by simp
  have lo: "2 powr of_int (- int k) \<le> \<bar>x\<bar>" using assms(1) by (simp only: a)
  have hi: "\<bar>x\<bar> < 2 powr (of_int (- int k) + 1)" using assms(2) by (simp only: b)
  have "round64 x = Fin (of_int (round_even (x / 2 powr of_int (- int k - 52)))
      * 2 powr of_int (- int k - 52))"
    using lo hi by (rule round64_normal) (use assms(3) in simp_all)
  then show ?thesis by (simp only: c) simp
qed

lemma round64_zero [simp]: "round64 0 = Fin 0"
  by (simp add: round64_def)

lemma round64_above_one:
  assumes "2 ^ k \<le> \<bar>x\<bar>" and "\<bar>x\<bar> < 2 * 2 ^ k" and "k \<le> 52"
  shows "round64 x = Fin (of_int (round_even (x * 2 ^ (52 - k))) / 2 ^ (52 - k))"
proof -
  have a: "(2::real) powr of_int (int k) = 2 ^ k" by (simp add: powr_realpow)
  have "(2::real) powr (of_int (int k) + 1) = 2 powr of_int (int k) * 2 powr 1"
    by (rule powr_add)
  then have b: "(2::real) powr (of_int (int k) + 1) = 2 * 2 ^ k" by (simp only: a) simp
  have eq: "int k - 52 = - int (52 - k)" using assms(3) by linarith
  have c: "(2::real) powr of_int (int k - 52) = 1 / 2 ^ (52 - k)"
    unfolding eq by (rule pow2_neg)
  have lo: "2 powr of_int (int k) \<le> \<bar>x\<bar>" using assms(1) by (simp only: a)
  have hi: "\<bar>x\<bar> < 2 powr (of_int (int k) + 1)" using assms(2) by (simp only: b)
  have "round64 x = Fin (of_int (round_even (x / 2 powr of_int (int k - 52)))
      * 2 powr of_int (int k - 52))"
    using lo hi by (rule round64_normal) (use assms(3) in simp_all)
  then show ?thesis by (simp only: c) simp
qed

lemma round64_overflow:
  assumes "2 ^ 1024 \<le> x"
  shows "round64 x = PInf"
proof -
  let ?e = "\<lfloor>log 2 \<bar>x\<bar>\<rfloor>"
  let ?u = "2 powr of_int (ulp_exp x) :: real"
  have "0 < (2::real) ^ 1024" by simp
  with assms have pos: "0 < x" by linarith
  have "(2::real) powr of_int 1024 \<le> \<bar>x\<bar>" using assms pos by simp
  then have "of_int 1024 \<le> log 2 \<bar>x\<bar>" using pos by (subst le_log_iff) simp_all
  then have e: "1024 \<le> ?e" by (simp add: le_floor_iff)
  then have u: "ulp_exp x = ?e - 52" by (simp add: ulp_exp_def)
  have "?e = ?e" ..
  then have "2 powr of_int ?e \<le> \<bar>x\<bar>"
    using pos by (subst (asm) floor_log_eq_powr_iff) simp_all
  then have le: "2 powr of_int ?e \<le> x" using pos by simp
  have "of_int ?e = (of_int (ulp_exp x) + 52 :: real)" by (simp add: u)
  then have "(2::real) powr of_int ?e = 2 powr (of_int (ulp_exp x) + 52)" by (rule arg_cong)
  also have "\<dots> = ?u * 2 powr 52" by (rule powr_add)
  finally have split: "(2::real) powr of_int ?e = ?u * 2 ^ 52" by simp
  with le have "of_int (2 ^ 52) \<le> x / ?u" by (simp add: pos_le_divide_eq mult.commute)
  then have "2 ^ 52 \<le> round_even (x / ?u)" by (rule round_even_lower)
  then have "(2::real) ^ 52 \<le> of_int (round_even (x / ?u))"
    by (metis of_int_le_iff of_int_numeral of_int_power)
  then have "2 ^ 52 * ?u \<le> of_int (round_even (x / ?u)) * ?u"
    by (simp add: mult_right_mono)
  then have "2 powr of_int ?e \<le> of_int (round_even (x / ?u)) * ?u"
    by (simp add: split mult.commute)
  moreover have "(2::real) powr of_int 1024 \<le> 2 powr of_int ?e"
    by (rule powr_mono) (use e in simp_all)
  ultimately have "2 ^ 1024 \<le> of_int (round_even (x / ?u)) * ?u" by simp
  then have "2 ^ 1024 \<le> \<bar>of_int (round_even (x / ?u)) * ?u\<bar>" by linarith
  then show ?thesis using pos by (simp add: round64_def Let_def)
qed

lemma round64_one [simp]: "round64 1 = Fin 1"
  using round64_integer [of 1] by simp

lemma round64_numeral [simp]:
  "(numeral n :: int) < 2 ^ 53 \<Longrightarrow> round64 (numeral n) = Fin (numeral n)"
  using round64_integer [of "numeral n"] by simp

lemma round_even_unique:
  assumes "of_int N - 1 / 2 < q" and "q < of_int N + 1 / 2"
  shows "round_even q = N"
proof (cases "of_int N \<le> q")
  case True
  with assms(2) have "\<lfloor>q\<rfloor> = N" by (simp add: floor_eq_iff)
  with assms(2) show ?thesis by (simp add: round_even_def Let_def)
next
  case False
  with assms(1) have "\<lfloor>q\<rfloor> = N - 1" by (simp add: floor_eq_iff)
  with assms(1) False show ?thesis by (simp add: round_even_def Let_def)
qed

lemma round64_sqrt:
  assumes "0 < N" and "k \<le> 1022"
    and "(1 / 2 ^ k)\<^sup>2 \<le> m" and "m < (2 / 2 ^ k)\<^sup>2"
    and "((of_int N - 1 / 2) / 2 ^ (k + 52))\<^sup>2 < m"
    and "m < ((of_int N + 1 / 2) / 2 ^ (k + 52))\<^sup>2"
  shows "round64 (sqrt m) = Fin (of_int N / 2 ^ (k + 52))"
proof -
  have m: "0 \<le> m" using assms(3) by (meson order_trans zero_le_power2)
  have lo: "1 / 2 ^ k \<le> \<bar>sqrt m\<bar>" using assms(3) m by (simp add: real_le_rsqrt)
  have "sqrt m < 2 / 2 ^ k" using assms(4) by (intro real_less_lsqrt) simp_all
  then have hi: "\<bar>sqrt m\<bar> < 2 / 2 ^ k" using m by simp
  have "(of_int N - 1 / 2) / 2 ^ (k + 52) < sqrt m" using assms(5) by (rule real_less_rsqrt)
  then have a: "of_int N - 1 / 2 < sqrt m * 2 ^ (k + 52)" by (simp add: pos_divide_less_eq)
  have "sqrt m < (of_int N + 1 / 2) / 2 ^ (k + 52)"
    using assms(1,6) by (intro real_less_lsqrt) simp_all
  then have b: "sqrt m * 2 ^ (k + 52) < of_int N + 1 / 2" by (simp add: pos_less_divide_eq)
  have "round_even (sqrt m * 2 ^ (k + 52)) = N" using a b by (rule round_even_unique)
  with round64_fraction [OF lo hi assms(2)] show ?thesis by simp
qed

section \<open>Rounded values\<close>

text \<open>
  The doubles that the examples below go through: every equation gives the double to
  which a real result rounds.
\<close>

lemma in_order_one: "in_order (Suc 0) = Add Zero (Cell 0)"
  by (simp add: in_order_def)

lemma round64_tiny: "round64 tiny = Fin tiny"
  unfolding tiny_def using round64_dyadic [of 1 600] by simp

lemma round64_tiny_square: "round64 (tiny * tiny) = Fin 0"
  by (rule round64_underflow) (simp add: tiny_def powr_minus_divide)

lemma tiny_pos: "0 < tiny" "\<not> tiny \<le> 0" "\<bar>tiny\<bar> = tiny"
  by (simp_all add: tiny_def)

lemma round64_two_thirds: "round64 (2 / 3) = Fin (6004799503160661 / 9007199254740992)"
  using round64_fraction [of 1 "2 / 3"] by (simp add: round_even_def Let_def)

lemma round64_quotient:
  "round64 (6004799503160661 / 9007199254740992)
   = Fin (6004799503160661 / 9007199254740992)"
  using round64_dyadic [of 6004799503160661 53] by simp

lemma round64_percent:
  "round64 (150119987579016525 / 2251799813685248)
   = Fin (2345624805922133 / 35184372088832)"
  using round64_above_one [of 6 "150119987579016525 / 2251799813685248"]
  by (simp add: round_even_def Let_def)

lemma round64_three_tenths:
  "round64 (10808639105689191 / 36028797018963968)
   = Fin (1351079888211149 / 4503599627370496)"
  using round64_fraction [of 2 "10808639105689191 / 36028797018963968"]
  by (simp add: round_even_def Let_def)

lemma round64_tenth:
  "round64 (3602879701896397 / 36028797018963968)
   = Fin (3602879701896397 / 36028797018963968)"
  using round64_dyadic [of 3602879701896397 55] by simp

lemma round64_two_tenths:
  "round64 (7205759403792795 / 36028797018963968)
   = Fin (7205759403792795 / 36028797018963968)"
  using round64_dyadic [of 7205759403792795 55] by simp

lemma round64_scaled_quotient:
  "round64 (7205759403792795 / 10808639105689192)
   = Fin (3002399751580331 / 4503599627370496)"
  using round64_fraction [of 1 "7205759403792795 / 10808639105689192"]
  by (simp add: round_even_def Let_def)

lemma round64_scaled_quotient_again:
  "round64 (3002399751580331 / 4503599627370496)
   = Fin (3002399751580331 / 4503599627370496)"
  using round64_dyadic [of 3002399751580331 52] by simp

lemma round64_scaled_percent:
  "round64 (75059993789508275 / 1125899906842624)
   = Fin (4691249611844267 / 70368744177664)"
  using round64_above_one [of 6 "75059993789508275 / 1125899906842624"]
  by (simp add: round_even_def Let_def)

lemma round64_half_least: "round64 (1 / 2 ^ 1075) = Fin 0"
  by (rule round64_underflow) (simp add: powr_minus_divide)

lemma round64_quarter_least: "round64 (1 / 2 ^ 1076) = Fin 0"
  by (rule round64_underflow) (simp add: powr_minus_divide)

lemma round64_too_big: "round64 (2 ^ 1024) = PInf"
  by (rule round64_overflow) simp

lemma round64_quarter: "round64 (1 / 4) = Fin (1 / 4)"
  using round64_dyadic [of 1 2] by simp

lemma round64_half: "round64 (1 / 2) = Fin (1 / 2)"
  using round64_dyadic [of 1 1] by simp

lemma round64_tenth_square:
  "round64 (12980742146337070512478121581609 / 1298074214633706907132624082305024)
   = Fin (1441151880758559 / 144115188075855872)"
  using round64_fraction [of 7 "12980742146337070512478121581609 / 1298074214633706907132624082305024"]
  by (simp add: round_even_def Let_def)

lemma round64_hundredth:
  "round64 (1441151880758559 / 144115188075855872)
   = Fin (1441151880758559 / 144115188075855872)"
  using round64_dyadic [of 1441151880758559 57] by simp

lemma round64_two_hundredths:
  "round64 (1441151880758559 / 72057594037927936)
   = Fin (1441151880758559 / 72057594037927936)"
  using round64_dyadic [of 1441151880758559 56] by simp

lemma round64_three_hundredths:
  "round64 (4323455642275677 / 144115188075855872)
   = Fin (4323455642275677 / 144115188075855872)"
  using round64_dyadic [of 4323455642275677 57] by simp

lemma round64_root:
  "round64 (sqrt (1441151880758559 / 144115188075855872)) = Fin (3602879701896397 / 36028797018963968)"
  using round64_sqrt [of 7205759403792794 4 "1441151880758559 / 144115188075855872"]
  by (simp add: power2_eq_square)

lemma round64_fifth:
  "round64 (3602879701896397 / 18014398509481984)
   = Fin (3602879701896397 / 18014398509481984)"
  using round64_dyadic [of 3602879701896397 54] by simp

lemma round64_mean_tenth:
  "round64 (1351079888211149 / 13510798882111488) = Fin (7205759403792795 / 72057594037927936)"
  using round64_fraction [of 4 "1351079888211149 / 13510798882111488"]
  by (simp add: round_even_def Let_def)

lemma in_order_three:
  "in_order (Suc (Suc (Suc 0))) = Add (Add (Add Zero (Cell 0)) (Cell 1)) (Cell 2)"
  by (simp add: in_order_def upt_rec numeral_2_eq_2)

section \<open>RMSE, MAE and MASE\<close>

lemma rnd_nonneg: "fge v (Fin 0) \<Longrightarrow> fge (rnd v) (Fin 0)"
  by (cases v) (simp_all add: round64_nonneg)

lemma fadd64_nonneg:
  "fge a (Fin 0) \<Longrightarrow> fge b (Fin 0) \<Longrightarrow> fge (fadd64 a b) (Fin 0)"
  unfolding fadd64_def by (rule rnd_nonneg) (cases a; cases b; simp)

lemma square64_nonneg: "\<not> isnan v \<Longrightarrow> fge (fmul64 v v) (Fin 0)"
  unfolding fmul64_def by (rule rnd_nonneg) (cases v; simp)

lemma fabs_nonneg: "\<not> isnan v \<Longrightarrow> fge (fabs v) (Fin 0)"
  by (cases v) simp_all

lemma fdiv64_nonneg: "fge a (Fin 0) \<Longrightarrow> 0 < n \<Longrightarrow> fge (fdiv64 a (Fin n)) (Fin 0)"
  unfolding fdiv64_def by (rule rnd_nonneg) (cases a; simp)

lemma fsqrt64_nonneg: "fge a (Fin 0) \<Longrightarrow> fge (fsqrt64 a) (Fin 0)"
  unfolding fsqrt64_def by (rule rnd_nonneg) (cases a; simp)

lemma isnan_iff: "isnan v \<longleftrightarrow> v = NaN"
  by (cases v) simp_all

lemma fsub64_finite: "isfinite a \<Longrightarrow> isfinite b \<Longrightarrow> \<not> isnan (fsub64 a b)"
  by (cases a; cases b) (simp_all add: fsub64_def fsub_def isnan_iff)

lemma run_nonneg:
  assumes "list_all (\<lambda>v. fge v (Fin 0)) xs" and "set (cells p) \<subseteq> {..<length xs}"
  shows "fge (run p xs) (Fin 0)"
  using assms(2)
proof (induction p)
  case Zero
  then show ?case by simp
next
  case (Cell i)
  with assms(1) show ?case by (simp add: list_all_length)
next
  case (Add p q)
  then show ?case by (simp add: fadd64_nonneg)
qed

lemma covers_cells: "covers p n \<Longrightarrow> set (cells p) \<subseteq> {..<n}"
proof -
  assume "covers p n"
  then have "set (sort (cells p)) = set [0..<n]" by (simp add: covers_def)
  then show ?thesis by auto
qed

lemma mean64_nonneg:
  assumes "list_all (\<lambda>v. fge v (Fin 0)) xs" and "xs \<noteq> []" and "covers (ord (length xs)) (length xs)"
  shows "fge (mean64 ord k xs) (Fin 0)"
proof (cases k)
  case NdArray
  have "fge (np_sum64 ord xs) (Fin 0)"
    unfolding np_sum64_def using assms(1) covers_cells [OF assms(3)] by (rule run_nonneg)
  then show ?thesis using assms(2) NdArray by (simp add: np_mean64_def fdiv64_nonneg)
next
  case PdSeries
  let ?filled = "map (\<lambda>v. if isnan v then Fin 0 else v) xs"
  have nonan: "\<not> isnan v" if "v \<in> set xs" for v
    using assms(1) that by (cases v) (auto simp: list_all_iff)
  then have kept: "filter (\<lambda>v. \<not> isnan v) xs = xs" by (simp add: filter_id_conv)
  have "?filled = map (\<lambda>v. v) xs" by (rule map_cong) (simp_all add: nonan)
  then have filled: "?filled = xs" by simp
  have "fge (np_sum64 ord xs) (Fin 0)"
    unfolding np_sum64_def using assms(1) covers_cells [OF assms(3)] by (rule run_nonneg)
  then show ?thesis
    using assms(2) PdSeries by (simp add: kept filled fdiv64_nonneg del: map_eq_conv)
qed

text \<open>
  Claim C5, as amended. For two sequences of the same length, in arrays or in Series,
  that are not empty and whose cells are all finite, and whatever the order in which
  the cells are added, RMSE and MAE return, and each returns a value that is at least
  zero (so neither returns \<open>NaN\<close>).
\<close>

theorem RMSE_MAE_nonnegative:
  assumes "length Y = length y" and "Y \<noteq> []"
    and "list_all isfinite Y" and "list_all isfinite y"
    and "covers (ord (length Y)) (length Y)"
  shows "returns_ge (RMSE64 ord k Y y) (Inr (Fin 0)) \<and>
    returns_ge (MAE64 ord k Y y) (Inr (Fin 0))"
proof -
  let ?d = "map2 fsub64 Y y"
  have d: "arith k fsub64 Y y = Inr ?d" using assms(1) by (rule arith_same_length)
  have len: "length ?d = length Y" using assms(1) by simp
  have ne: "?d \<noteq> []" using assms(1,2) by (cases Y; cases y) auto
  have nonan: "\<not> isnan v" if "v \<in> set ?d" for v
  proof -
    from that obtain a b where "(a, b) \<in> set (zip Y y)" and v: "v = fsub64 a b" by auto
    then have "a \<in> set Y" "b \<in> set y" by (auto dest: set_zip_leftD set_zip_rightD)
    with assms(3,4) have "isfinite a" "isfinite b" by (simp_all add: list_all_iff)
    then show ?thesis unfolding v by (rule fsub64_finite)
  qed
  have sq: "list_all (\<lambda>v. fge v (Fin 0)) (map (\<lambda>v. fmul64 v v) ?d)"
    unfolding list_all_iff using nonan by (auto intro: square64_nonneg)
  have ab: "list_all (\<lambda>v. fge v (Fin 0)) (map fabs ?d)"
    unfolding list_all_iff using nonan by (auto intro: fabs_nonneg)
  have "fge (mean64 ord k (map (\<lambda>v. fmul64 v v) ?d)) (Fin 0)"
    using sq by (rule mean64_nonneg) (use ne assms(5) len in simp_all)
  then have "fge (fsqrt64 (mean64 ord k (map (\<lambda>v. fmul64 v v) ?d))) (Fin 0)"
    by (rule fsqrt64_nonneg)
  moreover have "fge (mean64 ord k (map fabs ?d)) (Fin 0)"
    using ab by (rule mean64_nonneg) (use ne assms(5) len in simp_all)
  ultimately show ?thesis by (simp add: RMSE64_def MAE64_def d)
qed

text \<open>Claim C5, an instance: errors 3 and 1, in two Series.\<close>

theorem RMSE_MAE_nonnegative_witness:
  "returns_ge (RMSE64 in_order PdSeries [Fin 3, Fin 1] [Fin 0, Fin 0]) (Inr (Fin 0)) \<and>
   returns_ge (MAE64 in_order PdSeries [Fin 3, Fin 1] [Fin 0, Fin 0]) (Inr (Fin 0))"
  by (rule RMSE_MAE_nonnegative) (simp_all add: covers_def in_order_def upt_rec)

text \<open>
  Claim C5 as first stated has RMSE at least MAE on every pair of sequences of equal
  length without missing values. With the one error \<open>2^-600\<close> the square of the error
  is below every positive double and rounds to zero: RMSE returns zero, and MAE returns
  the error. With three errors of \<^verbatim>\<open>0.1\<close> RMSE returns \<^verbatim>\<open>0.1\<close>, and MAE the next double,
  0.10000000000000002, because the sum of the three errors is rounded up. On the empty
  pair both means are \<open>0/0\<close>, so both metrics return \<open>NaN\<close>, in arrays and in Series,
  and no comparison with \<open>NaN\<close> holds; the same happens when the difference of two
  cells is not a number, as for two infinities.
\<close>

theorem RMSE_below_MAE_counterexample:
  "covers (in_order 1) 1 \<and>
   RMSE64 in_order NdArray [Fin tiny] [Fin 0] = Inr (Fin 0) \<and>
   MAE64 in_order NdArray [Fin tiny] [Fin 0] = Inr (Fin tiny) \<and>
   \<not> returns_ge (RMSE64 in_order NdArray [Fin tiny] [Fin 0])
       (MAE64 in_order NdArray [Fin tiny] [Fin 0]) \<and>
   RMSE64 in_order PdSeries [Fin tiny] [Fin 0] = Inr (Fin 0) \<and>
   MAE64 in_order PdSeries [Fin tiny] [Fin 0] = Inr (Fin tiny) \<and>
   RMSE64 in_order NdArray [] [] = Inr NaN \<and> MAE64 in_order NdArray [] [] = Inr NaN \<and>
   RMSE64 in_order PdSeries [] [] = Inr NaN \<and> MAE64 in_order PdSeries [] [] = Inr NaN \<and>
   covers (in_order 3) 3 \<and>
   RMSE64 in_order NdArray [Fin tenth, Fin tenth, Fin tenth] [Fin 0, Fin 0, Fin 0]
     = Inr (Fin tenth) \<and>
   MAE64 in_order NdArray [Fin tenth, Fin tenth, Fin tenth] [Fin 0, Fin 0, Fin 0]
     = Inr (Fin (7205759403792795 / 2 ^ 56)) \<and>
   \<not> returns_ge
       (RMSE64 in_order NdArray [Fin tenth, Fin tenth, Fin tenth] [Fin 0, Fin 0, Fin 0])
       (MAE64 in_order NdArray [Fin tenth, Fin tenth, Fin tenth] [Fin 0, Fin 0, Fin 0]) \<and>
   \<not> returns_ge (RMSE64 in_order NdArray [] []) (Inr (Fin 0)) \<and>
   \<not> returns_ge (RMSE64 in_order NdArray [PInf] [PInf]) (Inr (Fin 0)) \<and>
   \<not> returns_ge (MAE64 in_order PdSeries [PInf] [PInf]) (Inr (Fin 0))"
  by (simp add: RMSE64_def MAE64_def elementwise_def pad_def np_mean64_def np_sum64_def
      fsub64_def fsub_def fmul64_def fdiv64_def fadd64_def fsqrt64_def in_order_one
      in_order_three round64_tiny round64_tiny_square tiny_pos covers_def in_order_def
      upt_rec tenth_def round64_tenth round64_tenth_square round64_hundredth
      round64_two_hundredths round64_three_hundredths round64_root round64_fifth
      round64_mean_tenth round64_three_tenths)

text \<open>
  Claim C8. Whatever its two arguments are, MASE returns: it does not raise, and the
  value it returns is the placeholder \<open>NaN\<close>, which is not a finite number.
\<close>

theorem MASE_placeholder:
  "\<exists>v. MASE Y y = Inr v \<and> isnan v \<and> \<not> isfinite v"
  by (simp add: MASE_def)

section \<open>MAPE under scaling\<close>


lemma normal_bounds:
  assumes "normal x" and "x \<noteq> 0"
  shows "2 powr of_int \<lfloor>log 2 \<bar>x\<bar>\<rfloor> \<le> \<bar>x\<bar>" and "\<bar>x\<bar> < 2 powr (of_int \<lfloor>log 2 \<bar>x\<bar>\<rfloor> + 1)"
    and "- 1022 \<le> \<lfloor>log 2 \<bar>x\<bar>\<rfloor>" and "\<lfloor>log 2 \<bar>x\<bar>\<rfloor> \<le> 1022"
proof -
  have pos: "0 < \<bar>x\<bar>" using assms(2) by simp
  have "\<lfloor>log 2 \<bar>x\<bar>\<rfloor> = \<lfloor>log 2 \<bar>x\<bar>\<rfloor>" ..
  then have b: "2 powr of_int \<lfloor>log 2 \<bar>x\<bar>\<rfloor> \<le> \<bar>x\<bar> \<and> \<bar>x\<bar> < 2 powr (of_int \<lfloor>log 2 \<bar>x\<bar>\<rfloor> + 1)"
    using pos by (subst (asm) floor_log_eq_powr_iff) simp_all
  then show "2 powr of_int \<lfloor>log 2 \<bar>x\<bar>\<rfloor> \<le> \<bar>x\<bar>"
    and "\<bar>x\<bar> < 2 powr (of_int \<lfloor>log 2 \<bar>x\<bar>\<rfloor> + 1)" by simp_all
  from assms have lo: "2 powr of_int (- 1022) \<le> \<bar>x\<bar>" and hi: "\<bar>x\<bar> < 2 powr of_int 1023"
    by (simp_all add: normal_def powr_minus_divide)
  from lo pos have "of_int (- 1022) \<le> log 2 \<bar>x\<bar>" by (subst le_log_iff) simp_all
  then show "- 1022 \<le> \<lfloor>log 2 \<bar>x\<bar>\<rfloor>" by (simp add: le_floor_iff)
  from hi pos have "log 2 \<bar>x\<bar> < of_int 1023" by (subst log_less_iff) simp_all
  then have "\<lfloor>log 2 \<bar>x\<bar>\<rfloor> < 1023" by (simp add: floor_less_iff)
  then show "\<lfloor>log 2 \<bar>x\<bar>\<rfloor> \<le> 1022" by simp
qed

lemma floor_log_scale:
  assumes "x \<noteq> 0"
  shows "\<lfloor>log 2 \<bar>2 powr of_int j * x\<bar>\<rfloor> = j + \<lfloor>log 2 \<bar>x\<bar>\<rfloor>"
proof -
  have "log 2 \<bar>2 powr of_int j * x\<bar> = log 2 (2 powr of_int j * \<bar>x\<bar>)"
    by (simp add: abs_mult)
  also have "\<dots> = of_int j + log 2 \<bar>x\<bar>"
    using assms by (simp add: log_mult)
  finally show ?thesis by simp
qed

lemma round64_scale:
  assumes "normal x" and "normal (2 powr of_int j * x)"
  shows "round64 (2 powr of_int j * x) = times (2 powr of_int j) (round64 x)"
proof (cases "x = 0")
  case True
  then show ?thesis by simp
next
  case False
  let ?c = "2 powr of_int j :: real"
  let ?e = "\<lfloor>log 2 \<bar>x\<bar>\<rfloor>"
  have cx: "?c * x \<noteq> 0" using False by simp
  have e': "\<lfloor>log 2 \<bar>?c * x\<bar>\<rfloor> = ?e + j" using floor_log_scale [OF False, of j] by simp
  note nx = normal_bounds [OF assms(1) False]
  note ncx = normal_bounds [OF assms(2) cx, unfolded e']
  have rx: "round64 x =
      Fin (of_int (round_even (x / 2 powr of_int (?e - 52))) * 2 powr of_int (?e - 52))"
    using nx by (rule round64_normal)
  have rcx: "round64 (?c * x) =
      Fin (of_int (round_even (?c * x / 2 powr of_int (?e + j - 52)))
        * 2 powr of_int (?e + j - 52))"
    using ncx by (rule round64_normal)
  have "of_int (?e + j - 52) = (of_int j + of_int (?e - 52) :: real)" by simp
  then have "(2::real) powr of_int (?e + j - 52) = 2 powr (of_int j + of_int (?e - 52))"
    by (rule arg_cong)
  also have "\<dots> = ?c * 2 powr of_int (?e - 52)" by (rule powr_add)
  finally have pw: "(2::real) powr of_int (?e + j - 52) = ?c * 2 powr of_int (?e - 52)" .
  have q: "?c * x / (?c * 2 powr of_int (?e - 52)) = x / 2 powr of_int (?e - 52)" by simp
  show ?thesis by (simp only: rcx rx pw q times.simps) (simp add: mult.assoc mult.left_commute)
qed

lemma steady_times:
  assumes "steady (2 powr of_int j) v"
  shows "fmul64 (Fin (2 powr of_int j)) v = times (2 powr of_int j) v"
proof (cases v)
  case (Fin x)
  with assms have "round64 x = Fin x" "normal x" "normal (2 powr of_int j * x)" by simp_all
  with round64_scale [of x j] show ?thesis by (simp add: fmul64_def Fin)
qed (simp_all add: fmul64_def)

lemma difference_times:
  assumes "steady_difference (2 powr of_int j) a b"
  shows "fsub64 (times (2 powr of_int j) a) (times (2 powr of_int j) b)
       = times (2 powr of_int j) (fsub64 a b)"
proof (cases a)
  case a: (Fin p)
  show ?thesis
  proof (cases b)
    case b: (Fin q)
    with a assms have "normal (p - q)" "normal (2 powr of_int j * (p - q))" by simp_all
    with round64_scale [of "p - q" j] show ?thesis
      by (simp add: a b fsub64_def fsub_def right_diff_distrib)
  qed (simp_all add: a fsub64_def fsub_def)
qed (cases b; simp add: fsub64_def fsub_def)+

lemma quotient_times:
  assumes "0 < c"
  shows "fdiv64 (times c d) (times c a) = fdiv64 d a"
proof (cases d)
  case d: (Fin r)
  show ?thesis
  proof (cases a)
    case a: (Fin x)
    have "(0 < c * r) = (0 < r)" using assms by (simp add: zero_less_mult_iff)
    then show ?thesis using assms by (simp add: a d fdiv64_def)
  qed (simp_all add: d fdiv64_def)
next
  case PInf
  then show ?thesis using assms by (cases a) (simp_all add: fdiv64_def zero_le_mult_iff)
next
  case NInf
  then show ?thesis using assms by (cases a) (simp_all add: fdiv64_def zero_le_mult_iff)
next
  case NaN
  then show ?thesis by (cases a) (simp_all add: fdiv64_def)
qed

lemma ape_times:
  assumes "list_all2 (scales (2 powr of_int j)) Y y"
  shows "map2 fdiv64 (map2 fsub64 (scale64 (2 powr of_int j) Y) (scale64 (2 powr of_int j) y))
           (scale64 (2 powr of_int j) Y)
       = map2 fdiv64 (map2 fsub64 Y y) Y"
  using assms
proof (induction rule: list_all2_induct)
  case Nil
  then show ?case by (simp add: scale64_def)
next
  case (Cons a Y b y)
  let ?c = "2 powr of_int j :: real"
  from Cons.hyps(1) have a: "fmul64 (Fin ?c) a = times ?c a" and b: "fmul64 (Fin ?c) b = times ?c b"
    and d: "fsub64 (times ?c a) (times ?c b) = times ?c (fsub64 a b)"
    by (simp_all add: scales_def steady_times difference_times)
  have "fdiv64 (fsub64 (fmul64 (Fin ?c) a) (fmul64 (Fin ?c) b)) (fmul64 (Fin ?c) a)
      = fdiv64 (fsub64 a b) a"
    by (simp only: a b d) (rule quotient_times, simp)
  with Cons.IH show ?case by (simp add: scale64_def)
qed

lemma MAPE64_same_length:
  assumes "length Y = length y"
  shows "MAPE64 ord k Y y =
    Inr (fmul64 (Fin 100) (mean64 ord k (map fabs (map2 fdiv64 (map2 fsub64 Y y) Y))))"
proof -
  have "length (map2 fsub64 Y y) = length Y" using assms by simp
  then show ?thesis
    by (simp add: MAPE64_def arith_same_length [OF assms] arith_same_length)
qed

text \<open>
  Claim C6, as amended. For a constant \<open>c\<close> that is a power of two, and sequences \<open>Y\<close>
  and \<open>y\<close> of the same length, in arrays or in Series, such that every finite cell is a
  double, and every finite cell, the difference of an observed cell and the cell
  predicted for it, and the multiples of these by \<open>c\<close>, are zero or of a magnitude from
  \<open>2^-1022\<close> up to \<open>2^1023\<close>, MAPE returns for \<open>c * Y\<close> and \<open>c * y\<close> what it returns for \<open>Y\<close>
  and \<open>y\<close>, whatever the order in which the cells are added.
\<close>

theorem MAPE_invariant_power_of_two:
  assumes "c = 2 powr of_int j" and "list_all2 (scales c) Y y"
  shows "MAPE64 ord k (scale64 c Y) (scale64 c y) = MAPE64 ord k Y y"
proof -
  have len: "length Y = length y" using assms(2) by (rule list_all2_lengthD)
  then have len': "length (scale64 c Y) = length (scale64 c y)" by (simp add: scale64_def)
  have "map2 fdiv64 (map2 fsub64 (scale64 c Y) (scale64 c y)) (scale64 c Y)
       = map2 fdiv64 (map2 fsub64 Y y) Y"
    using assms(2) unfolding assms(1) by (rule ape_times)
  then show ?thesis
    by (simp only: MAPE64_same_length [OF len] MAPE64_same_length [OF len'])
qed

text \<open>Claim C6, an instance: two Series of two cells, multiplied by 8.\<close>

theorem MAPE_invariant_power_of_two_witness:
  "MAPE64 in_order PdSeries (scale64 8 [Fin 4, Fin 2]) (scale64 8 [Fin 1, Fin 3])
   = MAPE64 in_order PdSeries [Fin 4, Fin 2] [Fin 1, Fin 3]"
  by (rule MAPE_invariant_power_of_two [of _ 3]) (simp_all add: scales_def normal_def)

text \<open>
  Claim C6 as first stated covers every positive constant. For \<open>Y = [3]\<close> and
  \<open>y = [1]\<close> MAPE returns 66.66666666666666; multiplied by the double \<^verbatim>\<open>0.1\<close> they give
  66.66666666666667, because the product \<^verbatim>\<open>0.1 * 3\<close> is rounded. A power of two is not
  enough when a product leaves the range of the exponent: for \<open>Y = [1/2]\<close> and
  \<open>y = [1/4]\<close> MAPE returns 50, and \<open>NaN\<close> after multiplying by \<open>2^-1074\<close>, where both
  products round to zero; for \<open>Y = [2]\<close> and \<open>y = [0]\<close> it returns 100, and \<open>NaN\<close> after
  multiplying by \<open>2^1023\<close>, where the product overflows to an infinity.
\<close>

theorem MAPE_scale_counterexample:
  "0 < tenth \<and> round64 tenth = Fin tenth \<and>
   MAPE64 in_order NdArray (scale64 tenth [Fin 3]) (scale64 tenth [Fin 1])
     \<noteq> MAPE64 in_order NdArray [Fin 3] [Fin 1] \<and>
   MAPE64 in_order NdArray [Fin 3] [Fin 1] = Inr (Fin (2345624805922133 / 2 ^ 45)) \<and>
   MAPE64 in_order NdArray (scale64 tenth [Fin 3]) (scale64 tenth [Fin 1])
     = Inr (Fin (4691249611844267 / 2 ^ 46)) \<and>
   MAPE64 in_order NdArray [Fin (1 / 2)] [Fin (1 / 4)] = Inr (Fin 50) \<and>
   MAPE64 in_order NdArray (scale64 (1 / 2 ^ 1074) [Fin (1 / 2)])
       (scale64 (1 / 2 ^ 1074) [Fin (1 / 4)]) = Inr NaN \<and>
   MAPE64 in_order NdArray [Fin 2] [Fin 0] = Inr (Fin 100) \<and>
   MAPE64 in_order NdArray (scale64 (2 ^ 1023) [Fin 2]) (scale64 (2 ^ 1023) [Fin 0]) = Inr NaN"
  by (simp add: MAPE64_same_length scale64_def np_mean64_def np_sum64_def in_order_one
      fsub64_def fsub_def fmul64_def fdiv64_def fadd64_def tenth_def
      round64_two_thirds round64_quotient round64_percent round64_three_tenths round64_tenth
      round64_two_tenths round64_scaled_quotient round64_scaled_quotient_again
      round64_scaled_percent round64_half_least [simplified]
      round64_quarter_least [simplified] round64_too_big [simplified]
      round64_quarter round64_half)

section \<open>MAPE on a zero observation\<close>

















section \<open>The residuals of the diagnostic plot\<close>

lemma kept_observed:
  "length Y = length y \<Longrightarrow>
   map fst (filter snd (zip Y (map Not (map2 (\<or>) (map isnan Y) (map isnan y)))))
     = map fst (filter (\<lambda>(a, b). \<not> isnan a \<and> \<not> isnan b) (zip Y y))"
  by (induction Y y rule: list_induct2) auto

lemma kept_predicted:
  "length Y = length y \<Longrightarrow>
   map fst (filter snd (zip y (map Not (map2 (\<or>) (map isnan Y) (map isnan y)))))
     = map snd (filter (\<lambda>(a, b). \<not> isnan a \<and> \<not> isnan b) (zip Y y))"
  by (induction Y y rule: list_induct2) auto

lemma map2_fst_snd: "map2 f (map fst zs) (map snd zs) = map (\<lambda>(a, b). f a b) zs"
  by (simp add: zip_map_fst_snd)

lemma plot_tsresiduals_dy_eq:
  assumes "length Y = length y"
  shows "plot_tsresiduals_dy Y y =
    Inr (map (\<lambda>(a, b). fsub a b) (filter (\<lambda>(a, b). \<not> isnan a \<and> \<not> isnan b) (zip Y y)))"
proof -
  let ?F = "filter (\<lambda>(a, b). \<not> isnan a \<and> \<not> isnan b) (zip Y y)"
  let ?m = "map Not (map2 (\<or>) (map isnan Y) (map isnan y))"
  have m: "length ?m = length Y" "length ?m = length y" using assms by simp_all
  have e: "elementwise (\<or>) (map isnan Y) (map isnan y) = Inr (map2 (\<or>) (map isnan Y) (map isnan y))"
    using assms by (simp add: elementwise_def)
  have Y': "boolean_index Y ?m = Inr (map fst ?F)"
    unfolding boolean_index_def using m(1) kept_observed [OF assms] by simp
  have y': "boolean_index y ?m = Inr (map snd ?F)"
    unfolding boolean_index_def using m(2) kept_predicted [OF assms] by simp
  have "elementwise fsub (map fst ?F) (map snd ?F) = Inr (map (\<lambda>(a, b). fsub a b) ?F)"
    by (simp add: elementwise_def map2_fst_snd del: map_map)
  then show ?thesis
    unfolding plot_tsresiduals_dy_def by (simp only: e Y' y' sum.case Let_def)
qed

text \<open>
  Claim C1. For an observed and a predicted sequence of the same length, the residuals
  the plot is drawn from are those of the positions where neither cell is \<open>NaN\<close>, in
  order, each being observed minus predicted; on finite cells that is the difference of
  the two numbers. For \<open>Y = [1, 2, 3]\<close> and \<open>y = [1, 1, 1]\<close> they are \<open>[0, 1, 2]\<close>.
\<close>

theorem residuals_observed_minus_predicted:
  "(length Y = length y \<longrightarrow>
      plot_tsresiduals_dy Y y =
        Inr (map (\<lambda>(a, b). fsub a b)
               (filter (\<lambda>(a, b). \<not> isnan a \<and> \<not> isnan b) (zip Y y)))) \<and>
   (length as = length bs \<longrightarrow>
      plot_tsresiduals_dy (map Fin as) (map Fin bs) = Inr (map Fin (map2 (-) as bs))) \<and>
   plot_tsresiduals_dy [Fin 1, Fin 2, Fin 3] [Fin 1, Fin 1, Fin 1] = Inr [Fin 0, Fin 1, Fin 2]"
proof (intro conjI impI)
  assume "length Y = length y"
  then show "plot_tsresiduals_dy Y y =
      Inr (map (\<lambda>(a, b). fsub a b) (filter (\<lambda>(a, b). \<not> isnan a \<and> \<not> isnan b) (zip Y y)))"
    by (rule plot_tsresiduals_dy_eq)
next
  assume len: "length as = length bs"
  have "filter (\<lambda>(a, b). \<not> isnan a \<and> \<not> isnan b) (zip (map Fin as) (map Fin bs))
      = zip (map Fin as) (map Fin bs)"
    by (rule filter_True) (auto simp: zip_map1 zip_map2)
  moreover have "map (\<lambda>(a, b). fsub a b) (zip (map Fin as) (map Fin bs)) = map Fin (map2 (-) as bs)"
    using map2_fsub_Fin [of as bs] by simp
  ultimately show "plot_tsresiduals_dy (map Fin as) (map Fin bs) = Inr (map Fin (map2 (-) as bs))"
    using plot_tsresiduals_dy_eq [of "map Fin as" "map Fin bs"] len by simp
next
  show "plot_tsresiduals_dy [Fin 1, Fin 2, Fin 3] [Fin 1, Fin 1, Fin 1] = Inr [Fin 0, Fin 1, Fin 2]"
    by (simp add: plot_tsresiduals_dy_eq fsub_def)
qed

text \<open>Claim C1, an instance with a missing cell on each side.\<close>

theorem residuals_observed_minus_predicted_witness:
  "plot_tsresiduals_dy [Fin 5, NaN, Fin 3, Fin 4] [Fin 1, Fin 1, NaN, Fin 6] = Inr [Fin 4, Fin (- 2)] \<and>
   plot_tsresiduals_dy (map Fin [5, 4]) (map Fin [1, 6]) = Inr (map Fin [4, - 2])"
  using residuals_observed_minus_predicted
    [of "[Fin 5, NaN, Fin 3, Fin 4]" "[Fin 1, Fin 1, NaN, Fin 6]" "[5, 4]" "[1, 6]"]
  by (simp add: fsub_def)

section \<open>Computed columns\<close>

lemma filter_upt_eq: "i < n \<Longrightarrow> filter (\<lambda>j. j = i) [0..<n] = [i]"
  by (induction n) (auto simp: less_Suc_eq)

lemma matching_rows_distinct:
  assumes "distinct xs" and "i < length xs"
  shows "filter (\<lambda>j. xs ! j = xs ! i) [0..<length xs] = [i]"
proof -
  have "filter (\<lambda>j. xs ! j = xs ! i) [0..<length xs] = filter (\<lambda>j. j = i) [0..<length xs]"
    by (rule filter_cong) (use assms in \<open>auto simp: nth_eq_iff_index_eq\<close>)
  then show ?thesis using assms(2) by (simp add: filter_upt_eq)
qed

lemma join_rows_same_index:
  assumes "distinct xs"
  shows "join_rows xs xs = map (\<lambda>i. (i, Some i)) [0..<length xs]"
proof -
  have eq: "map (\<lambda>i. case filter (\<lambda>j. xs ! j = xs ! i) [0..<length xs] of
                    [] \<Rightarrow> [(i, None)] | js \<Rightarrow> map (\<lambda>j. (i, Some j)) js) [0..<length xs]
      = map (\<lambda>i. [(i, Some i)]) [0..<length xs]"
    by (rule map_cong) (use assms in \<open>auto simp: matching_rows_distinct\<close>)
  show ?thesis
    unfolding join_rows_def eq by (rule concat_map_singleton)
qed

lemma take_rows_all:
  "length vs = n \<Longrightarrow> take_rows vs (map Some [0..<n]) = vs"
  by (auto simp: take_rows_def comp_def map_nth)

lemma take_rows_columns:
  assumes "list_all (\<lambda>(c, vs). length vs = n) cols"
  shows "map (\<lambda>(c, vs). (c, take_rows vs (map Some [0..<n]))) cols = cols"
  using assms by (induction cols) (auto simp: take_rows_all)

lemma join_same_index:
  assumes "distinct (index l)" and "index r = index l"
    and "wf_frame l" and "wf_frame r"
    and "\<not> list_ex (\<lambda>c. c \<in> set (colnames r)) (colnames l)"
  shows "join l r = Inr \<lparr>index = index l, columns = columns l @ columns r\<rparr>"
proof -
  let ?n = "length (index l)"
  have rows: "join_rows (index l) (index r) = map (\<lambda>i. (i, Some i)) [0..<?n]"
    using assms(1,2) by (simp add: join_rows_same_index)
  have idx: "map (\<lambda>(i, j). index l ! i) (map (\<lambda>i. (i, Some i)) [0..<?n]) = index l"
    by (simp add: comp_def map_nth)
  have sel: "map (\<lambda>(i, j). Some i) (map (\<lambda>i. (i, Some i)) [0..<?n]) = map Some [0..<?n]"
    "map snd (map (\<lambda>i. (i, Some i)) [0..<?n]) = map Some [0..<?n]"
    by (simp_all add: comp_def)
  have lcols: "map (\<lambda>(c, vs). (c, take_rows vs (map Some [0..<?n]))) (columns l) = columns l"
    using assms(3) by (intro take_rows_columns) (simp add: wf_frame_def)
  have rcols: "map (\<lambda>(c, vs). (c, take_rows vs (map Some [0..<?n]))) (columns r) = columns r"
    using assms(2,4) by (intro take_rows_columns) (simp add: wf_frame_def)
  show ?thesis
    unfolding join_def using assms(5)
    by (simp only: rows idx sel lcols rcols Let_def if_False)
qed

lemma fst_in_names: "(c, v) \<in> set xs \<Longrightarrow> c \<in> fst ` set xs"
  by (metis fst_conv imageI)

lemma kept_columns_disjoint:
  "\<not> list_ex (\<lambda>c. c \<in> set (map fst new)) (map fst (filter (\<lambda>(c, vs). c \<notin> set (map fst new)) old))"
proof -
  have "c \<notin> set (map fst new)"
    if "c \<in> set (map fst (filter (\<lambda>(c, vs). c \<notin> set (map fst new)) old))" for c
    using that by (auto dest: fst_in_names)
  then show ?thesis unfolding list_ex_iff by blast
qed

text \<open>
  Claim C9, as amended. For a table whose row labels are distinct and a function \<open>f\<close>
  that returns columns of one cell per row, \<open>compute\<close> returns the table's rows under
  the columns of the table that \<open>f\<close> does not name, unchanged and in their order,
  followed by the columns \<open>f\<close> returned: a column of the table that \<open>f\<close> names is
  replaced.
\<close>

theorem compute_replaces_or_keeps:
  assumes "wf_frame df" and "distinct (index df)"
    and "list_all (\<lambda>(c, vs). length vs = length (index df)) (f df)"
  shows "compute df f =
    Inr \<lparr>index = index df,
         columns = filter (\<lambda>(c, vs). c \<notin> set (map fst (f df))) (columns df) @ f df\<rparr>"
proof -
  let ?new = "\<lparr>index = index df, columns = f df\<rparr>"
  let ?drop = "filter (\<lambda>col. col \<in> set (colnames df)) (colnames ?new)"
  let ?kept = "filter (\<lambda>(c, vs). c \<notin> set (map fst (f df))) (columns df)"
  have new: "DataFrame (f df) (index df) = Inr ?new"
    using assms(3) by (simp add: DataFrame_def)
  have wf_new: "wf_frame ?new" using assms(3) by (simp add: wf_frame_def)
  have same: "filter (\<lambda>(c, vs). c \<notin> set ?drop) (columns df) = ?kept"
    by (rule filter_cong) (auto simp: colnames_def dest: fst_in_names)
  have dropped: "(if ?drop \<noteq> [] then drop_columns df ?drop else Inr df)
      = Inr (df\<lparr>columns := ?kept\<rparr>)"
  proof (cases "?drop = []")
    case True
    then have none: "\<forall>c \<in> set (colnames ?new). c \<notin> set (colnames df)"
      by (simp add: filter_empty_conv)
    have "c \<notin> set (map fst (f df))" if "(c, vs) \<in> set (columns df)" for c vs
    proof
      assume "c \<in> set (map fst (f df))"
      with none have "c \<notin> set (colnames df)" by (auto simp: colnames_def)
      moreover from that have "c \<in> set (colnames df)" by (force simp: colnames_def)
      ultimately show False by simp
    qed
    then have "?kept = columns df"
      by (intro filter_True) auto
    with True show ?thesis by simp
  next
    case False
    have "list_all (\<lambda>c. c \<in> set (colnames df)) ?drop" by (simp add: list_all_iff)
    then have "drop_columns df ?drop =
        Inr (df\<lparr>columns := filter (\<lambda>(c, vs). c \<notin> set ?drop) (columns df)\<rparr>)"
      unfolding drop_columns_def by (rule if_P)
    moreover have "(if ?drop \<noteq> [] then drop_columns df ?drop else Inr df)
        = drop_columns df ?drop"
      using False by (rule if_P)
    ultimately show ?thesis by (simp only: same)
  qed
  have wf_kept: "wf_frame (df\<lparr>columns := ?kept\<rparr>)"
    using assms(1) by (auto simp: wf_frame_def list_all_iff)
  have "join (df\<lparr>columns := ?kept\<rparr>) ?new =
      Inr \<lparr>index = index (df\<lparr>columns := ?kept\<rparr>),
           columns = columns (df\<lparr>columns := ?kept\<rparr>) @ columns ?new\<rparr>"
    by (rule join_same_index)
      (use assms(2) wf_kept wf_new kept_columns_disjoint [of "f df" "columns df"]
        in \<open>simp_all add: colnames_def\<close>)
  then show ?thesis
    unfolding compute_def by (simp only: new dropped sum.case Let_def) simp
qed

text \<open>Claim C9, an instance: column \<open>b\<close> is replaced, \<open>a\<close> kept and \<open>c\<close> added.\<close>

theorem compute_replaces_or_keeps_witness:
  "compute \<lparr>index = [0 :: nat, 1],
            columns = [(''a'', [Fin 1, Fin 2]), (''b'', [Fin 3, Fin 4])]\<rparr>
     (\<lambda>df. [(''b'', map (fmul (Fin 2)) (snd (columns df ! 0))), (''c'', [Fin 7, Fin 8])])
   = Inr \<lparr>index = [0, 1],
          columns = [(''a'', [Fin 1, Fin 2]), (''b'', [Fin 2, Fin 4]), (''c'', [Fin 7, Fin 8])]\<rparr>"
proof -
  let ?df = "\<lparr>index = [0 :: nat, 1],
            columns = [(''a'', [Fin 1, Fin 2]), (''b'', [Fin 3, Fin 4])]\<rparr>"
  let ?f = "\<lambda>df :: nat frame. [(''b'', map (fmul (Fin 2)) (snd (columns df ! 0))), (''c'', [Fin 7, Fin 8])]"
  have "compute ?df ?f = Inr \<lparr>index = index ?df,
         columns = filter (\<lambda>(c, vs). c \<notin> set (map fst (?f ?df))) (columns ?df) @ ?f ?df\<rparr>"
    by (rule compute_replaces_or_keeps) (simp_all add: wf_frame_def)
  then show ?thesis by simp
qed

text \<open>
  Claim C9 as first stated covers every table. When a row label occurs twice, the join
  on the labels pairs each of its rows with both rows of the new columns: the column
  \<open>a\<close>, which \<open>f\<close> does not name, comes back with four cells for two.
\<close>

theorem compute_repeated_labels_counterexample:
  "compute \<lparr>index = [0 :: nat, 0], columns = [(''a'', [Fin 1, Fin 2])]\<rparr>
     (\<lambda>df. [(''b'', [Fin 5, Fin 5])])
   = Inr \<lparr>index = [0, 0, 0, 0],
          columns = [(''a'', [Fin 1, Fin 1, Fin 2, Fin 2]), (''b'', [Fin 5, Fin 5, Fin 5, Fin 5])]\<rparr>"
  by (simp add: compute_def DataFrame_def colnames_def join_def join_rows_def take_rows_def
      upt_rec)

section \<open>Regular ranges of stamps\<close>





lemma set_grid: "set (grid s f n) = (\<lambda>i. s + int i * f) ` {0..<n}"
  by (simp add: grid_def)


lemma grid_disjoint_after:
  assumes "0 < f"
  shows "set (grid (s + int n * f) f m) \<inter> set (grid s f n) = {}"
proof -
  have "s + int n * f + int i * f \<noteq> s + int j * f" if "j < n" for i j
  proof -
    have "int j * f < int n * f" using that assms by simp
    moreover have "0 \<le> int i * f" using assms by simp
    ultimately show ?thesis by linarith
  qed
  then show ?thesis by (auto simp: set_grid)
qed













section \<open>Extending a regular table\<close>










text \<open>
  Claim C4. With a negative duration of one day the duration branch subtracts the
  negative duration from the lower bound, which moves it one day later: the first row
  is lost and none is added before it. The integer branch, with the step \<open>-1\<close>, adds a
  row one day before the first. A positive duration extends the upper bound.
\<close>

theorem extend_negative_duration_moves_start_forward:
  "extend_timeseries daily None None (Some (Timedelta (- 86400000000000)))
   = Inr \<lparr>index = [86400000000000, 172800000000000],
          columns = [(''y'', [Fin 2, Fin 3])], freq = Some day\<rparr> \<and>
   extend_timeseries daily None None (Some (IntStep (- 1)))
   = Inr \<lparr>index = [- 86400000000000, 0, 86400000000000, 172800000000000],
          columns = [(''y'', [NaN, Fin 1, Fin 2, Fin 3])], freq = Some day\<rparr> \<and>
   extend_timeseries daily None None (Some (Timedelta 86400000000000))
   = Inr \<lparr>index = [0, 86400000000000, 172800000000000, 259200000000000],
          columns = [(''y'', [Fin 1, Fin 2, Fin 3, NaN])], freq = Some day\<rparr>"
  by (simp add: extend_timeseries_def reindex_def daily_def day_def grid_def upt_rec
      in_bounds_def max_stamp_def)








end
